theory Spec2Isabelle
  imports Complex_Main "HOL-Library.Word" "HOL-Library.AList"
begin

section \<open>JavaScript values\<close>

text \<open>
  The services are TypeScript classes running on Node. A thrown exception is a value of
  \<open>js_error\<close>: the constructor is the error's class, the argument its \<open>message\<close>.
  A function that can throw returns \<open>js_error + 'a\<close>, with \<open>Inl\<close> the exception.
\<close>

datatype js_error = Error string | TypeError string | SyntaxError string | RangeError string

fun message :: "js_error \<Rightarrow> string" where
  "message (Error m) = m"
| "message (TypeError m) = m"
| "message (SyntaxError m) = m"
| "message (RangeError m) = m"

text \<open>The class of an error, as \<open>error.name\<close> gives it.\<close>

fun error_name :: "js_error \<Rightarrow> string" where
  "error_name (Error m) = ''Error''"
| "error_name (TypeError m) = ''TypeError''"
| "error_name (SyntaxError m) = ''SyntaxError''"
| "error_name (RangeError m) = ''RangeError''"

text \<open>
  A JavaScript \<open>number\<close> is an IEEE double. The services only compare numbers, test them
  for truthiness and serialise them, so a finite double is represented by its value (the
  two zeros are one value here) and the three non-finite doubles by constructors.
\<close>

datatype number = Finite real | NaN | PosInfinity | NegInfinity


text \<open>\<open>a >= b\<close> on numbers: false as soon as one side is \<open>NaN\<close>.\<close>

fun js_ge :: "number \<Rightarrow> number \<Rightarrow> bool" where
  "js_ge NaN b = False"
| "js_ge a NaN = False"
| "js_ge PosInfinity b = True"
| "js_ge a NegInfinity = True"
| "js_ge (Finite a) (Finite b) = (b \<le> a)"
| "js_ge a b = False"

text \<open>Truthiness of a number: \<open>0\<close> and \<open>NaN\<close> are falsy.\<close>

fun truthy :: "number \<Rightarrow> bool" where
  "truthy (Finite x) = (x \<noteq> 0)"
| "truthy NaN = False"
| "truthy PosInfinity = True"
| "truthy NegInfinity = True"

datatype jsval =
    Undefined
  | Null
  | Boolean bool
  | Number number
  | String string
  | Array "jsval list"
  | Object "(string \<times> jsval) list"

text \<open>
  \<open>Record<string, any>\<close> is an association list in property order; writing a property
  that exists keeps its place, a new one goes to the end (\<open>AList.update\<close>).
  \<open>{...a, ...b}\<close> writes the properties of \<open>b\<close> over \<open>a\<close> in order.
\<close>

type_synonym jsobject = "(string \<times> jsval) list"

definition get_prop :: "jsobject \<Rightarrow> string \<Rightarrow> jsval" where
  "get_prop obj k = (case map_of obj k of None \<Rightarrow> Undefined | Some v \<Rightarrow> v)"

definition spread :: "jsobject \<Rightarrow> jsobject \<Rightarrow> jsobject" where
  "spread a b = foldl (\<lambda>acc kv. AList.update (fst kv) (snd kv) acc) a b"

section \<open>The vector store adapter (cyborgdb.service.ts)\<close>

record VectorRecord =
  vr_id :: string
  vr_vector :: "number list"
  vr_metadata :: jsobject

record QueryResult =
  qr_id :: string
  qr_score :: number
  qr_metadata :: jsobject

text \<open>The bodies the adapter posts, and what the store answers (\<open>response.data\<close>).\<close>

record WireVector =
  wv_id :: string
  wv_values :: "number list"
  wv_metadata :: jsobject

datatype request =
    UpsertBody "WireVector list"
  | QueryBody "number list" number "jsobject option" bool
  | DeleteBody "string list"

datatype response = MatchesData "QueryResult list" | OtherData

text \<open>
  The axios client is the environment: a function from path and body to an answer or a
  thrown error. The constructor leaves \<open>client\<close> undefined when the API URL or key is
  not configured; calling a method of it then throws a \<open>TypeError\<close>.
\<close>

type_synonym http_client = "string \<Rightarrow> request \<Rightarrow> js_error + response"

record CyborgDbService =
  client :: "http_client option"
  indexName :: string

text \<open>
  What leaves the process is recorded next to each result: one event per call of the
  embedding provider, of the cipher and of the store's HTTP endpoint, in program order.
\<close>

datatype event =
    EmbedCall string
  | EncryptCall "number list"
  | StorePost string request

definition client_post :: "CyborgDbService \<Rightarrow> string \<Rightarrow> request
    \<Rightarrow> (js_error + response) \<times> event list" where
  "client_post db path body =
     (case client db of
        None \<Rightarrow> (Inl (TypeError ''Cannot read properties of undefined (reading 'post')''), [])
      | Some post \<Rightarrow> (post path body, [StorePost path body]))"

definition to_wire :: "VectorRecord \<Rightarrow> WireVector" where
  "to_wire record = \<lparr>wv_id = vr_id record, wv_values = vr_vector record,
                     wv_metadata = vr_metadata record\<rparr>"

definition upsert :: "CyborgDbService \<Rightarrow> VectorRecord list \<Rightarrow> (js_error + unit) \<times> event list" where
  "upsert db records =
     (case client_post db (''/indexes/'' @ indexName db @ ''/upsert'')
             (UpsertBody (map to_wire records)) of
        (Inl e, tr) \<Rightarrow> (Inl (Error (''Failed to upsert vectors: '' @ message e)), tr)
      | (Inr _, tr) \<Rightarrow> (Inr (), tr))"

definition query :: "CyborgDbService \<Rightarrow> number list \<Rightarrow> number \<Rightarrow> jsobject option
    \<Rightarrow> (js_error + QueryResult list) \<times> event list" where
  "query db queryVector topK filter_opt =
     (case client_post db (''/indexes/'' @ indexName db @ ''/query'')
             (QueryBody queryVector topK filter_opt True) of
        (Inl e, tr) \<Rightarrow> (Inl (Error (''Failed to query vectors: '' @ message e)), tr)
      | (Inr (MatchesData matches), tr) \<Rightarrow>
          (Inr (map (\<lambda>m. \<lparr>qr_id = qr_id m, qr_score = qr_score m, qr_metadata = qr_metadata m\<rparr>)
                  matches), tr)
      | (Inr OtherData, tr) \<Rightarrow>
          (Inl (Error (''Failed to query vectors: ''
                  @ ''Cannot read properties of undefined (reading 'map')'')), tr))"

definition delete :: "CyborgDbService \<Rightarrow> string list \<Rightarrow> (js_error + unit) \<times> event list" where
  "delete db ids =
     (case client_post db (''/indexes/'' @ indexName db @ ''/delete'') (DeleteBody ids) of
        (Inl e, tr) \<Rightarrow> (Inl (Error (''Failed to delete vectors: '' @ message e)), tr)
      | (Inr _, tr) \<Rightarrow> (Inr (), tr))"

section \<open>Segmentation (document-chunker.service.ts)\<close>

subsection \<open>The string and array methods the chunker calls\<close>

text \<open>
  A string is a list of characters and \<open>length\<close> counts them, as \<open>String.length\<close>
  counts code units. \<open>trim\<close> removes white space at both ends; the white space of the
  one-byte characters is tab, line feed, vertical tab, form feed, carriage return and space.
\<close>

definition is_space :: "char \<Rightarrow> bool" where
  "is_space c = (c \<in> set [CHR 0x09, CHR 0x0A, CHR 0x0B, CHR 0x0C, CHR 0x0D, CHR '' ''])"

definition trim :: "string \<Rightarrow> string" where
  "trim s = rev (dropWhile is_space (rev (dropWhile is_space s)))"

text \<open>
  \<open>s.split(' ')\<close>: the fields between single separators; an empty string gives one empty
  field, a trailing separator a trailing empty field.
\<close>

fun split_on :: "char \<Rightarrow> string \<Rightarrow> string \<Rightarrow> string list" where
  "split_on sep field [] = [field]"
| "split_on sep field (c # cs) =
     (if c = sep then field # split_on sep [] cs else split_on sep (field @ [c]) cs)"

text \<open>\<open>s.split(/[.!?]+/)\<close>: the fields between maximal runs of terminators.\<close>

definition is_terminator :: "char \<Rightarrow> bool" where
  "is_terminator c = (c = CHR ''.'' \<or> c = CHR ''!'' \<or> c = CHR ''?'')"

function split_runs :: "string \<Rightarrow> string \<Rightarrow> string list" where
  "split_runs field [] = [field]"
| "split_runs field (c # cs) =
     (if is_terminator c then field # split_runs [] (dropWhile is_terminator cs)
      else split_runs (field @ [c]) cs)"
  by pat_completeness auto
termination
  by (relation "measure (\<lambda>(field, s). length s)")
     (auto simp: length_dropWhile_le le_imp_less_Suc)

text \<open>\<open>words.join(' ')\<close>.\<close>

fun join :: "string \<Rightarrow> string list \<Rightarrow> string" where
  "join sep [] = []"
| "join sep [w] = w"
| "join sep (w # v # ws) = w @ sep @ join sep (v # ws)"

text \<open>
  \<open>xs.slice(start)\<close>: a negative \<open>start\<close> counts from the end and stops at the first
  element; \<open>-0\<close> is \<open>0\<close>, the whole array.
\<close>

definition js_slice_from :: "int \<Rightarrow> 'a list \<Rightarrow> 'a list" where
  "js_slice_from start xs =
     (if start < 0 then drop (nat (max (int (length xs) + start) 0)) xs
      else drop (nat start) xs)"

subsection \<open>The chunker\<close>

record ChunkerConfig =
  chunkSize :: int
  chunkOverlap :: int

record TextChunk =
  tc_text :: string
  tc_index :: nat
  tc_metadata :: "jsobject option"

definition splitIntoSentences :: "string \<Rightarrow> string list" where
  "splitIntoSentences text = filter (\<lambda>s. length s > 0) (map trim (split_runs [] text))"

text \<open>
  The buffer that starts the next chunk: the last \<open>floor(chunkOverlap / 5)\<close> fields of
  the closed buffer, joined by spaces, and a space.
\<close>

definition overlap_seed :: "ChunkerConfig \<Rightarrow> string \<Rightarrow> string" where
  "overlap_seed cfg currentChunk =
     join '' '' (js_slice_from (- (chunkOverlap cfg div 5)) (split_on (CHR '' '') [] currentChunk))
       @ '' ''"

text \<open>
  The \<open>for\<close> loop of \<open>chunkText\<close> over the sentences, with its three variables
  \<open>chunks\<close>, \<open>currentChunk\<close> and \<open>chunkIndex\<close>.
\<close>

fun chunk_loop :: "ChunkerConfig \<Rightarrow> jsobject option \<Rightarrow> string list
    \<Rightarrow> TextChunk list \<Rightarrow> string \<Rightarrow> nat \<Rightarrow> TextChunk list \<times> string \<times> nat" where
  "chunk_loop cfg md [] chunks currentChunk chunkIndex = (chunks, currentChunk, chunkIndex)"
| "chunk_loop cfg md (sentence # rest) chunks currentChunk chunkIndex =
     (if int (length currentChunk) + int (length sentence) > chunkSize cfg
           \<and> length currentChunk > 0
      then chunk_loop cfg md rest
             (chunks @ [\<lparr>tc_text = trim currentChunk, tc_index = chunkIndex, tc_metadata = md\<rparr>])
             (overlap_seed cfg currentChunk @ sentence @ '' '')
             (chunkIndex + 1)
      else chunk_loop cfg md rest chunks (currentChunk @ sentence @ '' '') chunkIndex)"

definition chunkText :: "ChunkerConfig \<Rightarrow> string \<Rightarrow> jsobject option \<Rightarrow> TextChunk list" where
  "chunkText cfg text md =
     (case chunk_loop cfg md (splitIntoSentences text) [] [] 0 of
        (chunks, currentChunk, chunkIndex) \<Rightarrow>
          if length (trim currentChunk) > 0
          then chunks @ [\<lparr>tc_text = trim currentChunk, tc_index = chunkIndex, tc_metadata = md\<rparr>]
          else chunks)"


section \<open>Embeddings (embeddings.service.ts)\<close>

record EmbeddingResult =
  er_embedding :: "number list"
  er_model :: string
  er_usage :: number

text \<open>
  The two backends are the environment. \<open>openaiClient\<close> is the OpenAI client's
  \<open>embeddings.create\<close>, from model and input to the first embedding and the token count;
  it is undefined when no API key is configured. \<open>ollamaPost\<close> is the POST to
  \<open>/api/embeddings\<close>, from model and prompt to \<open>response.data.embedding\<close>.
  The constructor admits the providers \<open>openai\<close> and \<open>ollama\<close> only.
  \<open>maxConcurrent\<close> is the configured \<open>performance.maxConcurrentEmbeddings\<close>.
\<close>

record EmbeddingsService =
  provider :: string
  embeddingModel :: string
  openaiClient :: "(string \<Rightarrow> string \<Rightarrow> js_error + number list \<times> number) option"
  ollamaPost :: "string \<Rightarrow> string \<Rightarrow> js_error + number list"
  maxConcurrent :: int

definition generateOpenAIEmbedding :: "EmbeddingsService \<Rightarrow> string \<Rightarrow> js_error + EmbeddingResult" where
  "generateOpenAIEmbedding svc text =
     (case openaiClient svc of
        None \<Rightarrow> Inl (Error (''OpenAI embedding failed: '' @ ''OpenAI client not initialized''))
      | Some create \<Rightarrow>
          (case create (embeddingModel svc) text of
             Inl e \<Rightarrow> Inl (Error (''OpenAI embedding failed: '' @ message e))
           | Inr (vec, total_tokens) \<Rightarrow>
               Inr \<lparr>er_embedding = vec, er_model = embeddingModel svc, er_usage = total_tokens\<rparr>))"

definition generateOllamaEmbedding :: "EmbeddingsService \<Rightarrow> string \<Rightarrow> js_error + EmbeddingResult" where
  "generateOllamaEmbedding svc text =
     (case ollamaPost svc (embeddingModel svc) text of
        Inl e \<Rightarrow> Inl (Error (''Ollama embedding failed: '' @ message e))
      | Inr vec \<Rightarrow>
          Inr \<lparr>er_embedding = vec, er_model = embeddingModel svc, er_usage = Finite 0\<rparr>)"

definition generateEmbedding :: "EmbeddingsService \<Rightarrow> string \<Rightarrow> js_error + EmbeddingResult" where
  "generateEmbedding svc text =
     (if provider svc = ''openai'' then generateOpenAIEmbedding svc text
      else generateOllamaEmbedding svc text)"

text \<open>
  \<open>xs.slice(start, end)\<close>: negative positions count from the end, both are clamped to
  the array.
\<close>

definition js_slice :: "'a list \<Rightarrow> int \<Rightarrow> int \<Rightarrow> 'a list" where
  "js_slice xs start end =
     (let n = int (length xs);
          from = (if start < 0 then max (n + start) 0 else min start n);
          to = (if end < 0 then max (n + end) 0 else min end n)
      in take (nat (to - from)) (drop (nat from) xs))"

text \<open>
  \<open>Promise.all\<close>: the values in the order of the promises, whatever the order in which
  they settle, or a rejection when one of them rejects (here the one of the first
  rejected promise in array order).
\<close>

fun promise_all :: "(js_error + 'a) list \<Rightarrow> js_error + 'a list" where
  "promise_all [] = Inr []"
| "promise_all (p # ps) =
     (case p of
        Inl e \<Rightarrow> Inl e
      | Inr v \<Rightarrow> (case promise_all ps of Inl e \<Rightarrow> Inl e | Inr vs \<Rightarrow> Inr (v # vs)))"

text \<open>
  The \<open>for\<close> loop of \<open>generateEmbeddings\<close>, with its variables \<open>i\<close> and
  \<open>results\<close>. Each round issues the calls of one window together and awaits them all
  before the next round; \<open>windows\<close> records the windows issued, in order. With a cap
  that is not positive the loop does not end: the value is then \<open>None\<close>.
\<close>

partial_function (option) embeddings_loop :: "EmbeddingsService \<Rightarrow> string list \<Rightarrow> int
    \<Rightarrow> EmbeddingResult list \<Rightarrow> string list list
    \<Rightarrow> ((js_error + EmbeddingResult list) \<times> string list list) option" where
  "embeddings_loop svc texts i results windows =
     (if i < int (length texts) then
        (let batch = js_slice texts i (i + maxConcurrent svc) in
         (case promise_all (map (generateEmbedding svc) batch) of
            Inl e \<Rightarrow> Some (Inl e, windows @ [batch])
          | Inr batchResults \<Rightarrow>
              embeddings_loop svc texts (i + maxConcurrent svc) (results @ batchResults)
                (windows @ [batch])))
      else Some (Inr results, windows))"

declare embeddings_loop.simps [code]

definition generateEmbeddings :: "EmbeddingsService \<Rightarrow> string list
    \<Rightarrow> ((js_error + EmbeddingResult list) \<times> string list list) option" where
  "generateEmbeddings svc texts = embeddings_loop svc texts 0 [] []"

text \<open>\<open>s.includes(sub)\<close> and the dimension the service reports for its model.\<close>

fun str_includes :: "string \<Rightarrow> string \<Rightarrow> bool" where
  "str_includes [] sub = (sub = [])"
| "str_includes (c # cs) sub = (take (length sub) (c # cs) = sub \<or> str_includes cs sub)"

definition getEmbeddingDimension :: "EmbeddingsService \<Rightarrow> int" where
  "getEmbeddingDimension svc =
     (if str_includes (embeddingModel svc) ''small'' then 1536
      else if str_includes (embeddingModel svc) ''large'' then 3072
      else if str_includes (embeddingModel svc) ''nomic'' then 768
      else 1536)"

section \<open>Buffers (Node's \<open>Buffer\<close>)\<close>

text \<open>
  A \<open>Buffer\<close> is a list of bytes. A character stands for one byte of the UTF-8 form of a
  string, so \<open>Buffer.from(s)\<close> and \<open>buf.toString()\<close> go byte by byte.
\<close>

type_synonym byte = "8 word"
type_synonym bytes = "byte list"

definition byte_of_char :: "char \<Rightarrow> byte" where
  "byte_of_char c = of_nat (of_char c)"

definition char_of_byte :: "byte \<Rightarrow> char" where
  "char_of_byte b = char_of (unat b)"

definition utf8_encode :: "string \<Rightarrow> bytes" where
  "utf8_encode s = map byte_of_char s"

definition utf8_decode :: "bytes \<Rightarrow> string" where
  "utf8_decode bs = map char_of_byte bs"

text \<open>\<open>xs.indexOf(x)\<close> as an option.\<close>

fun index_of :: "'a \<Rightarrow> 'a list \<Rightarrow> nat option" where
  "index_of x [] = None"
| "index_of x (y # ys) =
     (if x = y then Some 0 else (case index_of x ys of None \<Rightarrow> None | Some n \<Rightarrow> Some (Suc n)))"

subsection \<open>\<open>Buffer.from(s, 'hex')\<close>\<close>

text \<open>
  Pairs of hexadecimal digits give bytes; decoding stops at the first pair that is not
  two hexadecimal digits, and a last single character is dropped.
\<close>

definition unhex :: "char \<Rightarrow> nat option" where
  "unhex c =
     (case index_of c ''0123456789abcdef'' of
        Some n \<Rightarrow> Some n
      | None \<Rightarrow> (case index_of c ''ABCDEF'' of Some n \<Rightarrow> Some (10 + n) | None \<Rightarrow> None))"

fun hex_decode :: "string \<Rightarrow> bytes" where
  "hex_decode (a # b # rest) =
     (case (unhex a, unhex b) of
        (Some hi, Some lo) \<Rightarrow> of_nat (16 * hi + lo) # hex_decode rest
      | _ \<Rightarrow> [])"
| "hex_decode rest = []"

subsection \<open>\<open>buf.toString('base64')\<close> and \<open>Buffer.from(s, 'base64')\<close>\<close>

definition b64_alphabet :: string where
  "b64_alphabet = ''ABCDEFGHIJKLMNOPQRSTUVWXYZabcdefghijklmnopqrstuvwxyz0123456789+/''"

definition b64_char :: "nat \<Rightarrow> char" where
  "b64_char n = b64_alphabet ! n"

fun b64_encode :: "bytes \<Rightarrow> string" where
  "b64_encode [] = []"
| "b64_encode [a] =
     [b64_char (unat a div 4), b64_char ((unat a mod 4) * 16), CHR ''='', CHR ''='']"
| "b64_encode [a, b] =
     [b64_char (unat a div 4), b64_char ((unat a mod 4) * 16 + unat b div 16),
      b64_char ((unat b mod 16) * 4), CHR ''='']"
| "b64_encode (a # b # c # rest) =
     [b64_char (unat a div 4), b64_char ((unat a mod 4) * 16 + unat b div 16),
      b64_char ((unat b mod 16) * 4 + unat c div 64), b64_char (unat c mod 64)]
     @ b64_encode rest"

text \<open>
  Decoding is lenient and never throws: the characters of the standard and of the
  URL-safe alphabet count, a padding character ends the input, every other character is
  skipped; a last group of two or three characters gives one or two bytes.
\<close>

definition unbase64 :: "char \<Rightarrow> nat option" where
  "unbase64 c =
     (if c = CHR ''-'' then Some 62 else if c = CHR ''_'' then Some 63
      else index_of c b64_alphabet)"

fun b64_sextets :: "string \<Rightarrow> nat list" where
  "b64_sextets [] = []"
| "b64_sextets (c # cs) =
     (case unbase64 c of
        Some n \<Rightarrow> n # b64_sextets cs
      | None \<Rightarrow> if c = CHR ''='' then [] else b64_sextets cs)"

fun b64_groups :: "nat list \<Rightarrow> bytes" where
  "b64_groups (w # x # y # z # rest) =
     [of_nat (w * 4 + x div 16), of_nat ((x mod 16) * 16 + y div 4), of_nat ((y mod 4) * 64 + z)]
     @ b64_groups rest"
| "b64_groups [w, x, y] = [of_nat (w * 4 + x div 16), of_nat ((x mod 16) * 16 + y div 4)]"
| "b64_groups [w, x] = [of_nat (w * 4 + x div 16)]"
| "b64_groups rest = []"

definition b64_decode :: "string \<Rightarrow> bytes" where
  "b64_decode s = b64_groups (b64_sextets s)"

subsection \<open>Decimal digits of an index\<close>

function show_nat :: "nat \<Rightarrow> string" where
  "show_nat n =
     (if n < 10 then [''0123456789'' ! n] else show_nat (n div 10) @ [''0123456789'' ! (n mod 10)])"
  by pat_completeness auto
termination
  by (relation "measure id") auto

section \<open>The cipher component (encryption.service.ts)\<close>

subsection \<open>Construction\<close>

text \<open>
  \<open>this.algorithm\<close> is kept as what the configured name denotes in Node's
  \<open>crypto\<close>: an authenticated cipher in Galois/Counter mode, given below by its block
  cipher, its field multiplication and its key length. \<open>keyHex\<close> is the configured
  \<open>encryption.key\<close>, \<open>None\<close> when the variable is not set.
\<close>

definition key_error_message :: string where
  "key_error_message = ''Encryption key must be 256 bits (64 hex characters). Generate with: ''
     @ ''node -e \"console.log(require('crypto').randomBytes(32).toString('hex'))\"''"

record 'alg EncryptionService =
  algorithm :: 'alg
  key :: bytes

definition new_EncryptionService :: "'alg \<Rightarrow> string option \<Rightarrow> js_error + 'alg EncryptionService" where
  "new_EncryptionService alg keyHex_opt =
     (case keyHex_opt of
        None \<Rightarrow> Inl (Error key_error_message)
      | Some keyHex \<Rightarrow>
          if keyHex = [] \<or> length keyHex \<noteq> 64 then Inl (Error key_error_message)
          else Inr \<lparr>algorithm = alg, key = hex_decode keyHex\<rparr>)"

text \<open>What the error message asks for: 64 characters, each a hexadecimal digit.\<close>

definition valid_key_hex :: "string \<Rightarrow> bool" where
  "valid_key_hex keyHex = (length keyHex = 64 \<and> list_all (\<lambda>c. unhex c \<noteq> None) keyHex)"

subsection \<open>The authenticated cipher behind \<open>createCipheriv\<close>\<close>

text \<open>
  Node's \<open>crypto\<close> is not part of the repository. Its cipher in Galois/Counter mode is
  written out here after the mode's definition (counter-mode encryption, the hash
  \<open>GHASH\<close> over the ciphertext, no additional data, a tag of 16 bytes), over a block
  cipher and a multiplication on 128-bit blocks that stay parameters: for
  \<open>aes-256-gcm\<close> they are AES with a 256-bit key and the multiplication of the field
  with \<open>2 ^ 128\<close> elements.
\<close>

unbundle bit_operations_syntax

type_synonym block = "128 word"

record gcm_algorithm =
  block_encrypt :: "bytes \<Rightarrow> block \<Rightarrow> block"
  gf_mul :: "block \<Rightarrow> block \<Rightarrow> block"
  key_length :: nat

text \<open>Big-endian bytes and blocks; a short last piece is padded with zero bytes.\<close>

definition be_int :: "bytes \<Rightarrow> int" where
  "be_int bs = foldl (\<lambda>n b. n * 256 + uint b) 0 bs"

fun int_be :: "nat \<Rightarrow> int \<Rightarrow> bytes" where
  "int_be 0 n = []"
| "int_be (Suc k) n = int_be k (n div 256) @ [of_int (n mod 256)]"

definition block_of_bytes :: "bytes \<Rightarrow> block" where
  "block_of_bytes bs = of_int (be_int (bs @ replicate (16 - length bs) 0))"

definition bytes_of_block :: "block \<Rightarrow> bytes" where
  "bytes_of_block w = int_be 16 (uint w)"

function chunks16 :: "bytes \<Rightarrow> bytes list" where
  "chunks16 bs = (if bs = [] then [] else take 16 bs # chunks16 (drop 16 bs))"
  by pat_completeness auto
termination
  by (relation "measure length") auto

definition blocks :: "bytes \<Rightarrow> block list" where
  "blocks bs = map block_of_bytes (chunks16 bs)"

definition ghash :: "gcm_algorithm \<Rightarrow> block \<Rightarrow> block list \<Rightarrow> block" where
  "ghash alg h xs = foldl (\<lambda>y x. gf_mul alg (y XOR x) h) 0 xs"

text \<open>The last block of the hash input: the bit lengths of additional data and text.\<close>

definition len_block :: "nat \<Rightarrow> nat \<Rightarrow> block" where
  "len_block alen clen = of_int (8 * int alen * 2 ^ 64 + 8 * int clen)"

definition inc32 :: "block \<Rightarrow> block" where
  "inc32 w = (w AND NOT (mask 32)) OR ((w + 1) AND mask 32)"

definition gcm_j0 :: "gcm_algorithm \<Rightarrow> block \<Rightarrow> bytes \<Rightarrow> block" where
  "gcm_j0 alg h iv =
     (if length iv = 12 then block_of_bytes (iv @ [0, 0, 0, 1])
      else ghash alg h (blocks iv @ [len_block 0 (length iv)]))"

function gctr :: "gcm_algorithm \<Rightarrow> bytes \<Rightarrow> block \<Rightarrow> bytes \<Rightarrow> bytes" where
  "gctr alg k cb bs =
     (if bs = [] then []
      else map2 (XOR) (take 16 bs) (bytes_of_block (block_encrypt alg k cb))
           @ gctr alg k (inc32 cb) (drop 16 bs))"
  by pat_completeness auto
termination
  by (relation "measure (\<lambda>(alg, k, cb, bs). length bs)") auto

definition gcm_tag :: "gcm_algorithm \<Rightarrow> bytes \<Rightarrow> bytes \<Rightarrow> bytes \<Rightarrow> bytes" where
  "gcm_tag alg k iv ct =
     (let h = block_encrypt alg k 0;
          s = ghash alg h (blocks ct @ [len_block 0 (length ct)])
      in bytes_of_block (s XOR block_encrypt alg k (gcm_j0 alg h iv)))"

definition gcm_crypt :: "gcm_algorithm \<Rightarrow> bytes \<Rightarrow> bytes \<Rightarrow> bytes \<Rightarrow> bytes" where
  "gcm_crypt alg k iv bs = gctr alg k (inc32 (gcm_j0 alg (block_encrypt alg k 0) iv)) bs"

text \<open>
  \<open>createCipheriv\<close> and \<open>createDecipheriv\<close> throw for a key of the wrong length and
  for an empty IV; \<open>setAuthTag\<close> throws for a tag whose length is not 4, 8 or 12 to 16
  bytes; \<open>final\<close> of a decipher throws when the tag does not match.
\<close>

definition create_cipher_check :: "gcm_algorithm \<Rightarrow> bytes \<Rightarrow> bytes \<Rightarrow> js_error option" where
  "create_cipher_check alg k iv =
     (if length k \<noteq> key_length alg then Some (RangeError ''Invalid key length'')
      else if iv = [] then Some (TypeError ''Invalid initialization vector'')
      else None)"

definition cipher_run :: "gcm_algorithm \<Rightarrow> bytes \<Rightarrow> bytes \<Rightarrow> bytes \<Rightarrow> js_error + bytes \<times> bytes" where
  "cipher_run alg k iv plain =
     (case create_cipher_check alg k iv of
        Some e \<Rightarrow> Inl e
      | None \<Rightarrow>
          (let encrypted = gcm_crypt alg k iv plain
           in Inr (encrypted, gcm_tag alg k iv encrypted)))"

definition valid_tag_length :: "nat \<Rightarrow> bool" where
  "valid_tag_length n = (n = 4 \<or> n = 8 \<or> (12 \<le> n \<and> n \<le> 16))"

definition decipher_run :: "gcm_algorithm \<Rightarrow> bytes \<Rightarrow> bytes \<Rightarrow> bytes \<Rightarrow> bytes \<Rightarrow> js_error + bytes" where
  "decipher_run alg k iv authTag encrypted =
     (case create_cipher_check alg k iv of
        Some e \<Rightarrow> Inl e
      | None \<Rightarrow>
          if \<not> valid_tag_length (length authTag)
          then Inl (TypeError (''Invalid authentication tag length: '' @ show_nat (length authTag)))
          else if take (length authTag) (gcm_tag alg k iv encrypted) \<noteq> authTag
          then Inl (Error ''Unsupported state or unable to authenticate data'')
          else Inr (gcm_crypt alg k iv encrypted))"

subsection \<open>Serialising a vector\<close>

text \<open>
  The JavaScript runtime is the environment: \<open>num_to_string\<close> is the string of a finite
  number and \<open>json_parse\<close> is \<open>JSON.parse\<close>. \<open>JSON.stringify\<close> of an array of
  numbers writes \<open>null\<close> for a number that is not finite.
\<close>

record js_runtime =
  num_to_string :: "real \<Rightarrow> string"
  json_parse :: "string \<Rightarrow> js_error + jsval"

fun json_number :: "js_runtime \<Rightarrow> number \<Rightarrow> string" where
  "json_number rt (Finite x) = num_to_string rt x"
| "json_number rt NaN = ''null''"
| "json_number rt PosInfinity = ''null''"
| "json_number rt NegInfinity = ''null''"

definition json_stringify :: "js_runtime \<Rightarrow> number list \<Rightarrow> string" where
  "json_stringify rt vector = ''['' @ join '','' (map (json_number rt) vector) @ '']''"

subsection \<open>\<open>encryptVector\<close>, \<open>decryptVector\<close>, \<open>encrypt\<close>, \<open>decrypt\<close>\<close>

text \<open>\<open>iv\<close> is the result of \<open>crypto.randomBytes(12)\<close> of this call.\<close>

definition encryptVector :: "js_runtime \<Rightarrow> gcm_algorithm EncryptionService \<Rightarrow> bytes \<Rightarrow> number list
    \<Rightarrow> js_error + string" where
  "encryptVector rt svc iv vector =
     (case cipher_run (algorithm svc) (key svc) iv (utf8_encode (json_stringify rt vector)) of
        Inl error \<Rightarrow> Inl (Error (''Encryption failed: '' @ message error))
      | Inr (encrypted, authTag) \<Rightarrow> Inr (b64_encode (iv @ authTag @ encrypted)))"

text \<open>\<open>buf.slice(start, end)\<close> with positions that are not negative.\<close>

definition buf_slice :: "bytes \<Rightarrow> nat \<Rightarrow> nat \<Rightarrow> bytes" where
  "buf_slice buf start end = take (end - start) (drop start buf)"

definition decryptVector :: "js_runtime \<Rightarrow> gcm_algorithm EncryptionService \<Rightarrow> string
    \<Rightarrow> js_error + jsval" where
  "decryptVector rt svc encryptedData =
     (let combined = b64_decode encryptedData;
          iv = buf_slice combined 0 12;
          authTag = buf_slice combined 12 28;
          encrypted = drop 28 combined
      in case decipher_run (algorithm svc) (key svc) iv authTag encrypted of
           Inl error \<Rightarrow> Inl (Error (''Decryption failed: '' @ message error))
         | Inr decrypted \<Rightarrow>
             (case json_parse rt (utf8_decode decrypted) of
                Inl error \<Rightarrow> Inl (Error (''Decryption failed: '' @ message error))
              | Inr v \<Rightarrow> Inr v))"

definition encrypt :: "gcm_algorithm EncryptionService \<Rightarrow> bytes \<Rightarrow> string \<Rightarrow> js_error + string" where
  "encrypt svc iv data =
     (case cipher_run (algorithm svc) (key svc) iv (utf8_encode data) of
        Inl error \<Rightarrow> Inl error
      | Inr (encrypted, authTag) \<Rightarrow> Inr (b64_encode (iv @ authTag @ encrypted)))"

definition decrypt :: "gcm_algorithm EncryptionService \<Rightarrow> string \<Rightarrow> js_error + string" where
  "decrypt svc encryptedData =
     (let combined = b64_decode encryptedData;
          iv = buf_slice combined 0 12;
          authTag = buf_slice combined 12 28;
          encrypted = drop 28 combined
      in case decipher_run (algorithm svc) (key svc) iv authTag encrypted of
           Inl error \<Rightarrow> Inl error
         | Inr decrypted \<Rightarrow> Inr (utf8_decode decrypted))"

section \<open>Retrieval (rag.service.ts)\<close>

record RetrievalResult =
  rr_id :: string
  rr_content :: jsval
  rr_score :: number
  rr_metadata :: jsobject

record RagConfig =
  maxContextChunks :: number
  similarityThreshold :: number

text \<open>
  \<open>retrieve(query, topK?)\<close>. An omitted \<open>topK\<close> is \<open>None\<close>.
  \<open>topK || this.maxContextChunks\<close> takes the default for every falsy \<open>topK\<close>.
\<close>

definition effective_topK :: "RagConfig \<Rightarrow> number option \<Rightarrow> number" where
  "effective_topK cfg topK =
     (case topK of
        None \<Rightarrow> maxContextChunks cfg
      | Some k \<Rightarrow> if truthy k then k else maxContextChunks cfg)"

definition to_retrieval :: "QueryResult \<Rightarrow> RetrievalResult" where
  "to_retrieval result =
     \<lparr>rr_id = qr_id result,
      rr_content = get_prop (qr_metadata result) ''chunkText'',
      rr_score = qr_score result,
      rr_metadata = AList.update ''encryptedData'' Undefined (qr_metadata result)\<rparr>"

definition retrieve :: "RagConfig \<Rightarrow> EmbeddingsService \<Rightarrow> CyborgDbService
    \<Rightarrow> string \<Rightarrow> number option \<Rightarrow> (js_error + RetrievalResult list) \<times> event list" where
  "retrieve cfg emb db q topK =
     (case generateEmbedding emb q of
        Inl e \<Rightarrow> (Inl (Error (''Failed to retrieve context: '' @ message e)), [EmbedCall q])
      | Inr queryEmbeddingResult \<Rightarrow>
          (case query db (er_embedding queryEmbeddingResult) (effective_topK cfg topK) None of
             (Inl e, tr) \<Rightarrow>
               (Inl (Error (''Failed to retrieve context: '' @ message e)), EmbedCall q # tr)
           | (Inr results, tr) \<Rightarrow>
               (Inr (map to_retrieval
                       (filter (\<lambda>result. js_ge (qr_score result) (similarityThreshold cfg))
                          results)),
                EmbedCall q # tr)))"

section \<open>Ingestion (rag.service.ts)\<close>

record Document =
  doc_id :: string
  doc_content :: string
  doc_metadata :: "jsobject option"

text \<open>
  The collaborators of \<open>RagService\<close>. \<open>randomBytes\<close> gives the IV that
  \<open>crypto.randomBytes(12)\<close> returns in the \<open>i\<close>-th call of \<open>encryptVector\<close>.
\<close>

record RagService =
  rag_config :: RagConfig
  documentChunker :: ChunkerConfig
  embeddingsService :: EmbeddingsService
  runtime :: js_runtime
  encryptionService :: "gcm_algorithm EncryptionService"
  randomBytes :: "nat \<Rightarrow> bytes"
  cyborgDbService :: CyborgDbService

text \<open>The metadata object of a record; the document's metadata is spread last.\<close>

definition record_metadata :: "Document \<Rightarrow> nat \<Rightarrow> string \<Rightarrow> string \<Rightarrow> jsobject" where
  "record_metadata document i text encryptedVector =
     spread
       [(''documentId'', String (doc_id document)),
        (''chunkIndex'', Number (Finite (real i))),
        (''chunkText'', String text),
        (''encrypted'', Boolean True),
        (''encryptedData'', String encryptedVector)]
       (case doc_metadata document of None \<Rightarrow> [] | Some md \<Rightarrow> md)"

text \<open>
  The \<open>for\<close> loop over the chunks, with its index \<open>i\<close> and the array
  \<open>encryptedRecords\<close>; \<open>chunks\<close> holds the chunks from index \<open>i\<close> on.
\<close>

fun encrypt_loop :: "RagService \<Rightarrow> Document \<Rightarrow> EmbeddingResult list \<Rightarrow> TextChunk list \<Rightarrow> nat
    \<Rightarrow> VectorRecord list \<Rightarrow> event list \<Rightarrow> (js_error + VectorRecord list) \<times> event list" where
  "encrypt_loop rag document embeddingResults [] i encryptedRecords tr =
     (Inr encryptedRecords, tr)"
| "encrypt_loop rag document embeddingResults (chunk # chunks) i encryptedRecords tr =
     (if length embeddingResults \<le> i
      then (Inl (TypeError ''Cannot read properties of undefined (reading 'embedding')''), tr)
      else
        (let chunkId = doc_id document @ ''_chunk_'' @ show_nat i;
             embedding = er_embedding (embeddingResults ! i)
         in case encryptVector (runtime rag) (encryptionService rag) (randomBytes rag i) embedding of
              Inl e \<Rightarrow> (Inl e, tr @ [EncryptCall embedding])
            | Inr encryptedVector \<Rightarrow>
                encrypt_loop rag document embeddingResults chunks (i + 1)
                  (encryptedRecords
                   @ [\<lparr>vr_id = chunkId,
                       vr_vector = embedding,
                       vr_metadata = record_metadata document i (tc_text chunk) encryptedVector\<rparr>])
                  (tr @ [EncryptCall embedding])))"

text \<open>
  \<open>ingestDocument\<close>: every exception is caught and thrown again as an \<open>Error\<close>.
  The value is \<open>None\<close> when the embedding loop does not end.
\<close>

definition ingest_failed :: "js_error \<Rightarrow> js_error" where
  "ingest_failed e = Error (''Failed to ingest document: '' @ message e)"

definition ingestDocument :: "RagService \<Rightarrow> Document
    \<Rightarrow> ((js_error + string list) \<times> event list) option" where
  "ingestDocument rag document =
     (let chunks = chunkText (documentChunker rag) (doc_content document) (doc_metadata document);
          texts = map tc_text chunks
      in case generateEmbeddings (embeddingsService rag) texts of
           None \<Rightarrow> None
         | Some (Inl e, windows) \<Rightarrow> Some (Inl (ingest_failed e), map EmbedCall (concat windows))
         | Some (Inr embeddingResults, windows) \<Rightarrow>
             (case encrypt_loop rag document embeddingResults chunks 0 []
                     (map EmbedCall (concat windows)) of
                (Inl e, tr) \<Rightarrow> Some (Inl (ingest_failed e), tr)
              | (Inr encryptedRecords, tr) \<Rightarrow>
                  (case upsert (cyborgDbService rag) encryptedRecords of
                     (Inl e, tr') \<Rightarrow> Some (Inl (ingest_failed e), tr @ tr')
                   | (Inr _, tr') \<Rightarrow> Some (Inr (map vr_id encryptedRecords), tr @ tr'))))"

definition deleteDocument :: "RagService \<Rightarrow> string list \<Rightarrow> (js_error + unit) \<times> event list" where
  "deleteDocument rag chunkIds = delete (cyborgDbService rag) chunkIds"

section \<open>Example inputs\<close>

text \<open>The store stub of the retrieval scenario and its configuration.\<close>

definition scenario_store :: CyborgDbService where
  "scenario_store =
     \<lparr>client = Some (\<lambda>path body. Inr (MatchesData
        [\<lparr>qr_id = ''a'', qr_score = Finite 0.9, qr_metadata = [(''chunkText'', String ''A'')]\<rparr>,
         \<lparr>qr_id = ''b'', qr_score = Finite 0.75, qr_metadata = [(''chunkText'', String ''B'')]\<rparr>,
         \<lparr>qr_id = ''c'', qr_score = Finite 0.5, qr_metadata = [(''chunkText'', String ''C'')]\<rparr>])),
      indexName = ''medical-embeddings''\<rparr>"

definition scenario_config :: RagConfig where
  "scenario_config = \<lparr>maxContextChunks = Finite 5, similarityThreshold = Finite 0.7\<rparr>"

definition scenario_embeddings :: EmbeddingsService where
  "scenario_embeddings =
     \<lparr>provider = ''ollama'', embeddingModel = ''nomic-embed-text'', openaiClient = None,
      ollamaPost = (\<lambda>model prompt. Inr [Finite 1, Finite 2]), maxConcurrent = 2\<rparr>"



text \<open>A local provider stub that answers each prompt with its length, and a cap of two.\<close>

definition batch_example_embeddings :: EmbeddingsService where
  "batch_example_embeddings =
     \<lparr>provider = ''ollama'', embeddingModel = ''nomic-embed-text'', openaiClient = None,
      ollamaPost = (\<lambda>model prompt. Inr [Finite (real (length prompt))]), maxConcurrent = 2\<rparr>"

text \<open>
  A stand-in for the JavaScript runtime that agrees with it on arrays of integers and
  \<open>null\<close> written without white space: integers print in decimal, and the parser reads
  such arrays and rejects every other text.
\<close>

definition show_int :: "int \<Rightarrow> string" where
  "show_int i = (if i < 0 then ''-'' @ show_nat (nat (- i)) else show_nat (nat i))"

definition read_nat :: "string \<Rightarrow> nat option" where
  "read_nat s =
     (if s \<noteq> [] \<and> list_all (\<lambda>c. index_of c ''0123456789'' \<noteq> None) s
      then Some (foldl (\<lambda>n c. 10 * n + the (index_of c ''0123456789'')) 0 s)
      else None)"

definition read_element :: "string \<Rightarrow> jsval option" where
  "read_element s =
     (if s = ''null'' then Some Null
      else (case s of
              [] \<Rightarrow> None
            | c # cs \<Rightarrow>
                if c = CHR ''-''
                then map_option (\<lambda>n. Number (Finite (- real n))) (read_nat cs)
                else map_option (\<lambda>n. Number (Finite (real n))) (read_nat s)))"

definition example_json_parse :: "string \<Rightarrow> js_error + jsval" where
  "example_json_parse s =
     (case s of
        [] \<Rightarrow> Inl (SyntaxError ''Unexpected end of JSON input'')
      | c # cs \<Rightarrow>
          if c = CHR ''['' \<and> cs \<noteq> [] \<and> last cs = CHR '']''
          then (if butlast cs = [] then Inr (Array [])
                else (let elements = map read_element (split_on (CHR '','') [] (butlast cs))
                      in if list_all (\<lambda>e. e \<noteq> None) elements
                         then Inr (Array (map the elements))
                         else Inl (SyntaxError ''Unexpected token in JSON'')))
          else Inl (SyntaxError (''Unexpected token '' @ [c] @ '' in JSON at position 0'')))"

definition example_runtime :: js_runtime where
  "example_runtime =
     \<lparr>num_to_string = (\<lambda>x. show_int \<lfloor>x\<rfloor>), json_parse = example_json_parse\<rparr>"

text \<open>
  A stand-in for the block cipher and the multiplication, each injective in its block
  argument, a key of 32 bytes and an IV of 12 bytes.
\<close>

definition example_algorithm :: gcm_algorithm where
  "example_algorithm =
     \<lparr>block_encrypt = (\<lambda>k x. word_rotl 7 (x XOR block_of_bytes (take 16 k))
                               + block_of_bytes (drop 16 k)),
      gf_mul = (\<lambda>y h. word_rotl 9 (y XOR h)),
      key_length = 32\<rparr>"

definition example_key_hex :: string where
  "example_key_hex = ''000102030405060708090a0b0c0d0e0f101112131415161718191a1b1c1d1e1f''"

definition example_service :: "gcm_algorithm EncryptionService" where
  "example_service = \<lparr>algorithm = example_algorithm, key = hex_decode example_key_hex\<rparr>"

definition example_iv :: bytes where
  "example_iv = [1, 2, 3, 4, 5, 6, 7, 8, 9, 10, 11, 12]"

text \<open>64 characters that are no hexadecimal digits.\<close>

definition non_hex_key :: string where
  "non_hex_key = ''zzzzzzzzzzzzzzzzzzzzzzzzzzzzzzzzzzzzzzzzzzzzzzzzzzzzzzzzzzzzzzzz''"

text \<open>
  An orchestrator over the stubs above: a store that acknowledges every request, the
  same IV for every call, and two documents, one of them with empty content.
\<close>

definition example_store :: CyborgDbService where
  "example_store =
     \<lparr>client = Some (\<lambda>path body. Inr OtherData), indexName = ''medical-embeddings''\<rparr>"

definition example_rag :: RagService where
  "example_rag =
     \<lparr>rag_config = scenario_config,
      documentChunker = \<lparr>chunkSize = 500, chunkOverlap = 50\<rparr>,
      embeddingsService = batch_example_embeddings,
      runtime = example_runtime,
      encryptionService = example_service,
      randomBytes = (\<lambda>i. example_iv),
      cyborgDbService = example_store\<rparr>"

definition example_document :: Document where
  "example_document =
     \<lparr>doc_id = ''rec1'', doc_content = ''Patient has fever.'', doc_metadata = None\<rparr>"

definition empty_document :: Document where
  "empty_document = \<lparr>doc_id = ''rec2'', doc_content = [], doc_metadata = None\<rparr>"

section \<open>Verification\<close>

subsection \<open>Chunk sizes\<close>








subsection \<open>Batch embedding\<close>






subsection \<open>Buffers and their text encodings\<close>

lemma index_of_nth:
  "distinct xs \<Longrightarrow> n < length xs \<Longrightarrow> index_of (xs ! n) xs = Some n"
proof (induction xs arbitrary: n)
  case Nil
  then show ?case by simp
next
  case (Cons x xs)
  show ?case
  proof (cases n)
    case 0
    then show ?thesis by simp
  next
    case (Suc m)
    with Cons.prems have "xs ! m \<noteq> x" and "index_of (xs ! m) xs = Some m"
      using Cons.IH [of m] by auto
    with Suc show ?thesis by simp
  qed
qed

lemma b64_alphabet_facts:
  "distinct b64_alphabet" "length b64_alphabet = 64"
  "CHR ''-'' \<notin> set b64_alphabet" "CHR ''_'' \<notin> set b64_alphabet"
  "CHR ''='' \<notin> set b64_alphabet"
  by (simp_all add: b64_alphabet_def)

lemma unbase64_b64_char:
  assumes "n < 64"
  shows "unbase64 (b64_char n) = Some n"
proof -
  have mem: "b64_alphabet ! n \<in> set b64_alphabet"
    using assms by (simp add: b64_alphabet_facts)
  then have "b64_alphabet ! n \<noteq> CHR ''-''" "b64_alphabet ! n \<noteq> CHR ''_''"
    using b64_alphabet_facts(3,4) by auto
  moreover have "index_of (b64_alphabet ! n) b64_alphabet = Some n"
    using assms by (simp add: index_of_nth b64_alphabet_facts)
  ultimately show ?thesis
    by (simp add: unbase64_def b64_char_def)
qed

lemma unbase64_pad: "unbase64 (CHR ''='') = None"
  by (simp add: unbase64_def b64_alphabet_def)

lemma sextet_bounds:
  fixes x y z :: nat
  assumes "x < 256" "y < 256" "z < 256"
  shows "x div 4 < 64" "(x mod 4) * 16 + y div 16 < 64" "(y mod 16) * 4 + z div 64 < 64"
    "z mod 64 < 64" "(x mod 4) * 16 < 64" "(y mod 16) * 4 < 64"
  using assms by auto

lemma regroup:
  fixes x y z :: nat
  assumes "x < 256" "y < 256" "z < 256"
  shows "x div 4 * 4 + ((x mod 4) * 16 + y div 16) div 16 = x"
    "(((x mod 4) * 16 + y div 16) mod 16) * 16 + ((y mod 16) * 4 + z div 64) div 4 = y"
    "(((y mod 16) * 4 + z div 64) mod 4) * 64 + z mod 64 = z"
    "x div 4 * 4 + ((x mod 4) * 16) div 16 = x"
    "(((x mod 4) * 16 + y div 16) mod 16) * 16 + ((y mod 16) * 4) div 4 = y"
proof -
  have y16: "y div 16 < 16" and z64: "z div 64 < 4"
    using assms by simp_all
  have hi: "((x mod 4) * 16 + y div 16) div 16 = x mod 4"
    using y16 by simp
  have mid: "((x mod 4) * 16 + y div 16) mod 16 = y div 16"
    using y16 by simp
  have lo: "((y mod 16) * 4 + z div 64) div 4 = y mod 16"
    using z64 by simp
  have last: "((y mod 16) * 4 + z div 64) mod 4 = z div 64"
    using z64 by simp
  show "x div 4 * 4 + ((x mod 4) * 16 + y div 16) div 16 = x"
    by (simp only: hi) simp
  show "(((x mod 4) * 16 + y div 16) mod 16) * 16 + ((y mod 16) * 4 + z div 64) div 4 = y"
    by (simp only: mid lo) simp
  show "(((y mod 16) * 4 + z div 64) mod 4) * 64 + z mod 64 = z"
    by (simp only: last) simp
  show "x div 4 * 4 + ((x mod 4) * 16) div 16 = x"
    by simp
  show "(((x mod 4) * 16 + y div 16) mod 16) * 16 + ((y mod 16) * 4) div 4 = y"
    by (simp only: mid) simp
qed

lemma b64_decode_encode: "b64_decode (b64_encode bs) = bs"
proof -
  have "b64_groups (b64_sextets (b64_encode bs)) = bs"
  proof (induction bs rule: b64_encode.induct)
    case 1
    then show ?case by simp
  next
    case (2 a)
    have a: "unat a < 256" using unsigned_less [of a] by simp
    have "of_nat (unat a div 4 * 4 + ((unat a mod 4) * 16) div 16) = a"
      by (simp only: regroup(4) [OF a a a] of_nat_unat ucast_id)
    then show ?case
      using sextet_bounds [OF a a a]
      by (simp add: unbase64_b64_char unbase64_pad)
  next
    case (3 a b)
    have a: "unat a < 256" using unsigned_less [of a] by simp
    have b: "unat b < 256" using unsigned_less [of b] by simp
    have "of_nat (unat a div 4 * 4 + ((unat a mod 4) * 16 + unat b div 16) div 16) = a"
      "of_nat ((((unat a mod 4) * 16 + unat b div 16) mod 16) * 16 + ((unat b mod 16) * 4) div 4)
         = b"
      by (simp_all only: regroup(1,5) [OF a b b] of_nat_unat ucast_id)
    then show ?case
      using sextet_bounds [OF a b b]
      by (simp add: unbase64_b64_char unbase64_pad)
  next
    case (4 a b c rest)
    have a: "unat a < 256" using unsigned_less [of a] by simp
    have b: "unat b < 256" using unsigned_less [of b] by simp
    have c: "unat c < 256" using unsigned_less [of c] by simp
    define w where "w = unat a div 4"
    define x where "x = (unat a mod 4) * 16 + unat b div 16"
    define y where "y = (unat b mod 16) * 4 + unat c div 64"
    define z where "z = unat c mod 64"
    have bounds: "w < 64" "x < 64" "y < 64" "z < 64"
      using sextet_bounds [OF a b c] by (simp_all add: w_def x_def y_def z_def)
    have enc: "b64_encode (a # b # c # rest)
        = [b64_char w, b64_char x, b64_char y, b64_char z] @ b64_encode rest"
      by (simp add: w_def x_def y_def z_def)
    have sx: "b64_sextets (b64_encode (a # b # c # rest))
        = w # x # y # z # b64_sextets (b64_encode rest)"
      unfolding enc using bounds by (simp add: unbase64_b64_char)
    have nat_back: "w * 4 + x div 16 = unat a" "(x mod 16) * 16 + y div 4 = unat b"
      "(y mod 4) * 64 + z = unat c"
      unfolding w_def x_def y_def z_def by (rule regroup [OF a b c])+
    have bytes_back: "of_nat (w * 4 + x div 16) = a" "of_nat ((x mod 16) * 16 + y div 4) = b"
      "of_nat ((y mod 4) * 64 + z) = c"
      by (simp_all only: nat_back of_nat_unat ucast_id)
    have "b64_groups (w # x # y # z # b64_sextets (b64_encode rest))
        = [a, b, c] @ b64_groups (b64_sextets (b64_encode rest))"
      by (simp only: b64_groups.simps bytes_back)
    with 4 sx show ?case by simp
  qed
  then show ?thesis by (simp add: b64_decode_def)
qed


subsection \<open>Counter mode decrypts what it encrypts\<close>

lemma length_int_be: "length (int_be k n) = k"
  by (induction k arbitrary: n) simp_all

lemma length_bytes_of_block: "length (bytes_of_block w) = 16"
  by (simp add: bytes_of_block_def length_int_be)


lemma gctr_Nil: "gctr alg k cb [] = []"
  by (subst gctr.simps) simp

lemma gctr_step:
  "bs \<noteq> [] \<Longrightarrow> gctr alg k cb bs
     = map2 (XOR) (take 16 bs) (bytes_of_block (block_encrypt alg k cb))
       @ gctr alg k (inc32 cb) (drop 16 bs)"
  by (subst gctr.simps) simp

lemma length_keystream_xor:
  "length (map2 (XOR) (take 16 bs) (bytes_of_block w)) = min (length bs) 16"
  by (simp add: length_bytes_of_block)

lemma length_gctr: "length (gctr alg k cb bs) = length bs"
proof (induction alg k cb bs rule: gctr.induct)
  case (1 alg k cb bs)
  show ?case
  proof (cases "bs = []")
    case True
    then show ?thesis by (simp add: gctr_Nil)
  next
    case False
    have "length (gctr alg k cb bs) = min (length bs) 16 + length (drop 16 bs)"
      by (simp only: gctr_step [OF False] length_append length_keystream_xor "1" [OF False])
    then show ?thesis by simp
  qed
qed


lemma length_gcm_tag: "length (gcm_tag alg k iv ct) = 16"
  by (simp add: gcm_tag_def Let_def length_bytes_of_block)


lemma payload_split:
  assumes "length iv = 12" and "length authTag = 16"
  shows "buf_slice (iv @ authTag @ encrypted) 0 12 = iv"
    "buf_slice (iv @ authTag @ encrypted) 12 28 = authTag"
    "drop 28 (iv @ authTag @ encrypted) = encrypted"
  using assms by (simp_all add: buf_slice_def)



subsection \<open>Blocks and bytes determine each other\<close>

lemma be_int_snoc: "be_int (xs @ [b]) = be_int xs * 256 + uint b"
  by (simp add: be_int_def)

lemma be_int_bounds: "0 \<le> be_int xs \<and> be_int xs < 256 ^ length xs"
proof (induction xs rule: rev_induct)
  case Nil
  then show ?case by (simp add: be_int_def)
next
  case (snoc b xs)
  have b: "0 \<le> uint b" "uint b < 256"
    using uint_bounded [of b] by simp_all
  from snoc have "be_int xs + 1 \<le> 256 ^ length xs" by simp
  then have "(be_int xs + 1) * 256 \<le> 256 ^ length xs * 256"
    by (rule mult_right_mono) simp
  with snoc b show ?case
    by (simp add: be_int_snoc algebra_simps)
qed

lemma be_int_inject:
  "length xs = length ys \<Longrightarrow> be_int xs = be_int ys \<Longrightarrow> xs = ys"
proof (induction xs arbitrary: ys rule: rev_induct)
  case Nil
  then show ?case by simp
next
  case (snoc b xs)
  from snoc.prems(1) obtain c ys' where ys: "ys = ys' @ [c]"
    by (cases ys rule: rev_cases) auto
  have b: "0 \<le> uint b" "uint b < 256" and c: "0 \<le> uint c" "uint c < 256"
    using uint_bounded [of b] uint_bounded [of c] by simp_all
  have eq: "be_int xs * 256 + uint b = be_int ys' * 256 + uint c"
    using snoc.prems(2) unfolding ys be_int_snoc .
  have "(be_int xs * 256 + uint b) mod 256 = uint b"
    "(be_int ys' * 256 + uint c) mod 256 = uint c"
    "(be_int xs * 256 + uint b) div 256 = be_int xs"
    "(be_int ys' * 256 + uint c) div 256 = be_int ys'"
    using b c by simp_all
  with eq have "be_int xs = be_int ys'" and "uint b = uint c"
    by metis+
  moreover from snoc.prems(1) have "length xs = length ys'"
    by (simp add: ys)
  ultimately show ?case
    using snoc.IH [of ys'] by (simp add: ys word_uint_eqI)
qed

lemma block_of_int_inject:
  assumes "0 \<le> a" "a < 256 ^ 16" "0 \<le> b" "b < 256 ^ 16"
    and "(of_int a :: block) = of_int b"
  shows "a = b"
proof -
  have "uint (of_int a :: block) = a mod 2 ^ 128" "uint (of_int b :: block) = b mod 2 ^ 128"
    by (simp_all add: uint_word_of_int)
  with assms(5) have "a mod 2 ^ 128 = b mod 2 ^ 128" by simp
  with assms(1-4) show ?thesis by simp
qed

lemma block_of_bytes_inject:
  assumes "length xs = length ys" and "length xs \<le> 16"
    and "block_of_bytes xs = block_of_bytes ys"
  shows "xs = ys"
proof -
  let ?pad = "replicate (16 - length xs) (0 :: byte)"
  have len: "length (xs @ ?pad) = 16" "length (ys @ ?pad) = 16"
    using assms(1,2) by simp_all
  have "be_int (xs @ ?pad) = be_int (ys @ ?pad)"
  proof (rule block_of_int_inject)
    show "0 \<le> be_int (xs @ ?pad)" "0 \<le> be_int (ys @ ?pad)"
      using be_int_bounds by blast+
    show "be_int (xs @ ?pad) < 256 ^ 16"
      using be_int_bounds [of "xs @ ?pad"] by (simp only: len)
    show "be_int (ys @ ?pad) < 256 ^ 16"
      using be_int_bounds [of "ys @ ?pad"] by (simp only: len)
    show "(of_int (be_int (xs @ ?pad)) :: block) = of_int (be_int (ys @ ?pad))"
      using assms(3) by (simp add: block_of_bytes_def assms(1))
  qed
  then have "xs @ ?pad = ys @ ?pad"
    using len by (intro be_int_inject) simp_all
  then show ?thesis by simp
qed

lemma be_int_int_be: "be_int (int_be k n) = n mod 256 ^ k"
proof (induction k arbitrary: n)
  case 0
  then show ?case by (simp add: be_int_def)
next
  case (Suc k)
  have "uint (of_int (n mod 256) :: byte) = n mod 256"
    by (simp add: uint_word_of_int)
  then have "be_int (int_be (Suc k) n) = (n div 256) mod 256 ^ k * 256 + n mod 256"
    by (simp add: be_int_snoc Suc)
  also have "\<dots> = n mod (256 * 256 ^ k)"
    using zmod_zmult2_eq [of "256 ^ k" n 256] by (simp add: mult.commute)
  finally show ?case by simp
qed

lemma bytes_of_block_inject:
  assumes "bytes_of_block w = bytes_of_block w'"
  shows "w = w'"
proof -
  have "uint w mod 256 ^ 16 = uint w' mod 256 ^ 16"
    using assms be_int_int_be [of 16 "uint w"] be_int_int_be [of 16 "uint w'"]
    by (simp only: bytes_of_block_def)
  moreover have "uint w < 256 ^ 16" "uint w' < 256 ^ 16"
    using uint_bounded [of w] uint_bounded [of w'] by simp_all
  ultimately have "uint w = uint w'"
    by simp
  then show ?thesis by (rule word_uint_eqI)
qed

subsection \<open>The tag depends on the IV and on every ciphertext byte\<close>

lemma chunks16_Nil: "chunks16 [] = []"
  by (subst chunks16.simps) simp

lemma chunks16_step: "bs \<noteq> [] \<Longrightarrow> chunks16 bs = take 16 bs # chunks16 (drop 16 bs)"
  by (subst chunks16.simps) simp

lemma blocks_single_difference:
  assumes "b \<noteq> b'"
  shows "\<exists>pre X X' post. blocks (u @ b # v) = pre @ X # post
           \<and> blocks (u @ b' # v) = pre @ X' # post \<and> X \<noteq> X'"
proof (induction "length u" arbitrary: u rule: less_induct)
  case less
  show ?case
  proof (cases "length u < 16")
    case True
    define n where "n = 15 - length u"
    have n: "16 - length u = Suc n"
      using True by (simp add: n_def)
    have tk: "take 16 (u @ c # v) = u @ c # take n v" for c
      using True by (simp add: n)
    have dr: "drop 16 (u @ c # v) = drop n v" for c
      using True by (simp add: n)
    have len: "length (u @ b # take n v) = length (u @ b' # take n v)"
      "length (u @ b # take n v) \<le> 16"
      using True by (simp_all add: n_def)
    have ne: "block_of_bytes (u @ b # take n v) \<noteq> block_of_bytes (u @ b' # take n v)"
    proof
      assume "block_of_bytes (u @ b # take n v) = block_of_bytes (u @ b' # take n v)"
      then have "u @ b # take n v = u @ b' # take n v"
        by (rule block_of_bytes_inject [OF len])
      with assms show False by simp
    qed
    have "blocks (u @ c # v) = [] @ block_of_bytes (u @ c # take n v) # blocks (drop n v)" for c
    proof -
      have "u @ c # v \<noteq> []" by simp
      from chunks16_step [OF this]
      have "chunks16 (u @ c # v) = (u @ c # take n v) # chunks16 (drop n v)"
        by (simp only: tk dr)
      then show ?thesis by (simp only: blocks_def list.map append_Nil)
    qed
    from this [of b] this [of b'] ne show ?thesis by blast
  next
    case False
    define u' where "u' = drop 16 u"
    have tk: "take 16 (u @ c # v) = take 16 u" for c
      using False by simp
    have dr: "drop 16 (u @ c # v) = u' @ c # v" for c
      using False by (simp add: u'_def)
    have "length u' < length u"
      using False by (simp add: u'_def)
    from less [OF this] obtain pre X X' post where
      IH: "blocks (u' @ b # v) = pre @ X # post" "blocks (u' @ b' # v) = pre @ X' # post"
        "X \<noteq> X'"
      by blast
    have "blocks (u @ c # v) = block_of_bytes (take 16 u) # blocks (u' @ c # v)" for c
    proof -
      have "u @ c # v \<noteq> []" by simp
      from chunks16_step [OF this]
      have "chunks16 (u @ c # v) = take 16 u # chunks16 (u' @ c # v)"
        by (simp only: tk dr)
      then show ?thesis by (simp only: blocks_def list.map)
    qed
    from this [of b] this [of b']
    have "blocks (u @ b # v) = (block_of_bytes (take 16 u) # pre) @ X # post"
      "blocks (u @ b' # v) = (block_of_bytes (take 16 u) # pre) @ X' # post"
      by (simp_all only: IH append_Cons)
    with IH(3) show ?thesis by blast
  qed
qed

lemma block_xor_right_inject: "(a :: block) XOR x = b XOR x \<Longrightarrow> a = b"
proof -
  assume eq: "a XOR x = b XOR x"
  have "a = (a XOR x) XOR x" by (simp add: xor.assoc)
  also have "\<dots> = (b XOR x) XOR x" by (simp only: eq)
  also have "\<dots> = b" by (simp add: xor.assoc)
  finally show ?thesis .
qed

lemma block_xor_left_inject: "(s :: block) XOR a = s XOR b \<Longrightarrow> a = b"
  using block_xor_right_inject [of a s b] by (simp add: xor.commute)

lemma ghash_fold_distinct:
  assumes inj: "inj (\<lambda>y. gf_mul alg y h)"
  shows "y \<noteq> y' \<Longrightarrow> foldl (\<lambda>y x. gf_mul alg (y XOR x) h) y xs
           \<noteq> foldl (\<lambda>y x. gf_mul alg (y XOR x) h) y' xs"
proof (induction xs arbitrary: y y')
  case Nil
  then show ?case by simp
next
  case (Cons x xs)
  from Cons.prems have "y XOR x \<noteq> y' XOR x"
    using block_xor_right_inject by blast
  then have "gf_mul alg (y XOR x) h \<noteq> gf_mul alg (y' XOR x) h"
    using inj by (auto dest: injD)
  from Cons.IH [OF this] show ?case by simp
qed

lemma ghash_single_difference:
  assumes inj: "inj (\<lambda>y. gf_mul alg y h)" and "X \<noteq> X'"
  shows "ghash alg h (pre @ X # post) \<noteq> ghash alg h (pre @ X' # post)"
proof -
  let ?f = "\<lambda>y x. gf_mul alg (y XOR x) h"
  let ?y = "foldl ?f 0 pre"
  from assms(2) have "?y XOR X \<noteq> ?y XOR X'"
    using block_xor_left_inject by blast
  then have "?f ?y X \<noteq> ?f ?y X'"
    using inj by (auto dest: injD)
  from ghash_fold_distinct [OF inj this, of post] show ?thesis
    by (simp add: ghash_def)
qed

lemma gcm_tag_ciphertext_sensitive:
  assumes inj: "inj (\<lambda>y. gf_mul alg y (block_encrypt alg k 0))" and "b \<noteq> b'"
  shows "gcm_tag alg k iv (u @ b # v) \<noteq> gcm_tag alg k iv (u @ b' # v)"
proof -
  let ?h = "block_encrypt alg k 0"
  let ?len = "len_block 0 (length (u @ b # v))"
  from blocks_single_difference [OF assms(2), of u v] obtain pre X X' post where
    bl: "blocks (u @ b # v) = pre @ X # post" "blocks (u @ b' # v) = pre @ X' # post" "X \<noteq> X'"
    by blast
  have "ghash alg ?h (pre @ X # (post @ [?len])) \<noteq> ghash alg ?h (pre @ X' # (post @ [?len]))"
    using inj bl(3) by (rule ghash_single_difference)
  then have "ghash alg ?h (blocks (u @ b # v) @ [?len])
      \<noteq> ghash alg ?h (blocks (u @ b' # v) @ [?len])"
    by (simp add: bl)
  then have "ghash alg ?h (blocks (u @ b # v) @ [?len]) XOR block_encrypt alg k (gcm_j0 alg ?h iv)
      \<noteq> ghash alg ?h (blocks (u @ b' # v) @ [?len]) XOR block_encrypt alg k (gcm_j0 alg ?h iv)"
    using block_xor_right_inject by blast
  then show ?thesis
    unfolding gcm_tag_def Let_def using bytes_of_block_inject by auto
qed

lemma gcm_tag_iv_sensitive:
  assumes inj: "inj (block_encrypt alg k)"
    and "length iv = 12" "length iv' = 12" "iv \<noteq> iv'"
  shows "gcm_tag alg k iv ct \<noteq> gcm_tag alg k iv' ct"
proof -
  let ?h = "block_encrypt alg k 0"
  have len: "length (iv @ [0, 0, 0, 1]) = length (iv' @ [0, 0, 0, 1])"
    "length (iv @ [0, 0, 0, 1]) \<le> 16"
    using assms(2,3) by simp_all
  have "block_of_bytes (iv @ [0, 0, 0, 1]) \<noteq> block_of_bytes (iv' @ [0, 0, 0, 1])"
  proof
    assume "block_of_bytes (iv @ [0, 0, 0, 1]) = block_of_bytes (iv' @ [0, 0, 0, 1])"
    then have "iv @ [0, 0, 0, 1] = iv' @ [0, 0, 0, 1]"
      by (rule block_of_bytes_inject [OF len])
    with assms(4) show False by simp
  qed
  then have "gcm_j0 alg ?h iv \<noteq> gcm_j0 alg ?h iv'"
    using assms(2,3) by (simp add: gcm_j0_def)
  then have "block_encrypt alg k (gcm_j0 alg ?h iv) \<noteq> block_encrypt alg k (gcm_j0 alg ?h iv')"
    using inj by (auto dest: injD)
  then have "s XOR block_encrypt alg k (gcm_j0 alg ?h iv)
      \<noteq> s XOR block_encrypt alg k (gcm_j0 alg ?h iv')" for s
    using block_xor_left_inject by blast
  then show ?thesis
    unfolding gcm_tag_def Let_def using bytes_of_block_inject by auto
qed

subsection \<open>A changed byte fails the tag check\<close>

lemma create_cipher_check_iv:
  "create_cipher_check alg k iv = None \<Longrightarrow> iv' \<noteq> [] \<Longrightarrow> create_cipher_check alg k iv' = None"
  by (auto simp: create_cipher_check_def split: if_splits)

lemma decipher_run_tag_mismatch:
  assumes "create_cipher_check alg k iv = None" and "length authTag = 16"
    and "gcm_tag alg k iv encrypted \<noteq> authTag"
  shows "decipher_run alg k iv authTag encrypted
           = Inl (Error ''Unsupported state or unable to authenticate data'')"
proof -
  have valid: "valid_tag_length (length authTag)"
    unfolding assms(2) by (simp add: valid_tag_length_def)
  have "take (length authTag) (gcm_tag alg k iv encrypted) = gcm_tag alg k iv encrypted"
    unfolding assms(2) using length_gcm_tag [of alg k iv encrypted] by simp
  with assms(3) have diff: "take (length authTag) (gcm_tag alg k iv encrypted) \<noteq> authTag"
    by simp
  show ?thesis
    unfolding decipher_run_def
    by (simp only: assms(1) valid diff option.case if_True if_False not_True_eq_False simp_thms)
qed

lemma tampered_payload_rejected:
  assumes injE: "inj (block_encrypt alg k)"
    and injM: "inj (\<lambda>y. gf_mul alg y (block_encrypt alg k 0))"
    and iv: "length iv = 12"
    and run: "cipher_run alg k iv plain = Inr (encrypted, authTag)"
    and p: "p < length (iv @ authTag @ encrypted)"
    and b: "b \<noteq> (iv @ authTag @ encrypted) ! p"
  shows "decipher_run alg k (buf_slice ((iv @ authTag @ encrypted)[p := b]) 0 12)
           (buf_slice ((iv @ authTag @ encrypted)[p := b]) 12 28)
           (drop 28 ((iv @ authTag @ encrypted)[p := b]))
         = Inl (Error ''Unsupported state or unable to authenticate data'')"
proof -
  from run have chk: "create_cipher_check alg k iv = None"
    by (cases "create_cipher_check alg k iv") (simp_all add: cipher_run_def)
  with run have tag: "authTag = gcm_tag alg k iv encrypted"
    by (auto simp: cipher_run_def Let_def)
  have len: "length authTag = 16"
    unfolding tag by (rule length_gcm_tag)
  consider (in_iv) "p < 12" | (in_tag) "12 \<le> p" "p < 28" | (in_text) "28 \<le> p"
    by linarith
  then show ?thesis
  proof cases
    case in_iv
    define iv' where "iv' = iv[p := b]"
    have upd: "(iv @ authTag @ encrypted)[p := b] = iv' @ authTag @ encrypted"
      using in_iv iv by (simp add: iv'_def list_update_append)
    have len': "length iv' = 12" by (simp add: iv'_def iv)
    have "iv' ! p = b" using in_iv iv by (simp add: iv'_def)
    moreover have "iv ! p \<noteq> b" using b in_iv iv by (simp add: nth_append)
    ultimately have "iv \<noteq> iv'" by auto
    from gcm_tag_iv_sensitive [OF injE iv len' this, of encrypted]
    have "gcm_tag alg k iv' encrypted \<noteq> authTag"
      unfolding tag by simp
    then have mismatch: "gcm_tag alg k iv' encrypted \<noteq> authTag" .
    have "iv' \<noteq> []"
      using len' by (cases iv') simp_all
    from create_cipher_check_iv [OF chk this]
    have chk': "create_cipher_check alg k iv' = None" .
    from decipher_run_tag_mismatch [OF chk' len mismatch]
    have "decipher_run alg k iv' authTag encrypted
        = Inl (Error ''Unsupported state or unable to authenticate data'')" .
    then show ?thesis
      unfolding upd payload_split [OF len' len] .
  next
    case in_tag
    define authTag' where "authTag' = authTag[p - 12 := b]"
    have idx: "\<not> p < 12" "p - 12 < 16"
      using in_tag by simp_all
    have upd: "(iv @ authTag @ encrypted)[p := b] = iv @ authTag' @ encrypted"
      by (simp only: list_update_append iv len idx if_True if_False authTag'_def)
    have len': "length authTag' = 16" by (simp add: authTag'_def len)
    have "authTag' ! (p - 12) = b" using in_tag len by (simp add: authTag'_def)
    moreover have "authTag ! (p - 12) \<noteq> b"
      using b by (simp only: nth_append iv len idx if_True if_False)
    ultimately have "authTag \<noteq> authTag'" by auto
    then have "gcm_tag alg k iv encrypted \<noteq> authTag'"
      unfolding tag [symmetric] .
    from decipher_run_tag_mismatch [OF chk len' this]
    have "decipher_run alg k iv authTag' encrypted
        = Inl (Error ''Unsupported state or unable to authenticate data'')" .
    then show ?thesis
      unfolding upd payload_split [OF iv len'] .
  next
    case in_text
    define q where "q = p - 28"
    have q: "q < length encrypted"
      using p in_text iv len by (simp add: q_def)
    define u where "u = take q encrypted"
    define v where "v = drop (Suc q) encrypted"
    have old: "encrypted = u @ encrypted ! q # v"
      unfolding u_def v_def using q by (rule id_take_nth_drop)
    have new: "encrypted[q := b] = u @ b # v"
      unfolding u_def v_def using q by (rule upd_conv_take_nth_drop)
    have idx: "\<not> p < 12" "\<not> p - 12 < 16" "p - 12 - 16 = q"
      using in_text by (simp_all add: q_def)
    have upd: "(iv @ authTag @ encrypted)[p := b] = iv @ authTag @ (u @ b # v)"
      by (simp only: list_update_append iv len idx if_True if_False new)
    have "encrypted ! q \<noteq> b"
      using b by (simp only: nth_append iv len idx if_True if_False)
    from gcm_tag_ciphertext_sensitive [OF injM this, of iv u v]
    have "gcm_tag alg k iv (u @ b # v) \<noteq> authTag"
      unfolding tag old [symmetric] by simp
    from decipher_run_tag_mismatch [OF chk len this]
    have "decipher_run alg k iv authTag (u @ b # v)
        = Inl (Error ''Unsupported state or unable to authenticate data'')" .
    then show ?thesis
      unfolding upd payload_split [OF iv len] .
  qed
qed

subsection \<open>The stand-in cipher is injective\<close>

lemma word_rotl_inject: "word_rotl n a = word_rotl n b \<Longrightarrow> a = b"
  by (metis word_rot_lr)

lemma example_block_encrypt_inj: "inj (block_encrypt example_algorithm k)"
proof (rule injI)
  fix x y assume "block_encrypt example_algorithm k x = block_encrypt example_algorithm k y"
  then have "word_rotl 7 (x XOR block_of_bytes (take 16 k))
      = word_rotl 7 (y XOR block_of_bytes (take 16 k))"
    by (simp add: example_algorithm_def)
  then have "x XOR block_of_bytes (take 16 k) = y XOR block_of_bytes (take 16 k)"
    by (rule word_rotl_inject)
  then show "x = y" by (rule block_xor_right_inject)
qed

lemma example_gf_mul_inj: "inj (\<lambda>y. gf_mul example_algorithm y h)"
proof (rule injI)
  fix x y assume "gf_mul example_algorithm x h = gf_mul example_algorithm y h"
  then have "word_rotl 9 (x XOR h) = word_rotl 9 (y XOR h)"
    by (simp add: example_algorithm_def)
  then have "x XOR h = y XOR h"
    by (rule word_rotl_inject)
  then show "x = y" by (rule block_xor_right_inject)
qed

subsection \<open>Tamper detection\<close>

text \<open>
  C3. Take a payload produced by \<open>encryptVector\<close> (with its 12-byte IV) and change
  any single byte of it, in the IV, the tag or the ciphertext region. Provided the block
  cipher is injective under the key and multiplication by the hash key
  \<open>block_encrypt k 0\<close> is injective (AES is a permutation, and the field
  multiplication by a hash key other than zero is one too), \<open>decryptVector\<close> on the
  changed payload throws: it returns no vector at all, and the error is the wrapped
  authentication failure.
\<close>

theorem decryptVector_detects_tampering:
  assumes "inj (block_encrypt (algorithm svc) (key svc))"
    and "inj (\<lambda>y. gf_mul (algorithm svc) y (block_encrypt (algorithm svc) (key svc) 0))"
    and "length iv = 12"
    and "encryptVector rt svc iv vector = Inr payload"
    and "p < length (b64_decode payload)"
    and "b \<noteq> b64_decode payload ! p"
  shows "decryptVector rt svc (b64_encode ((b64_decode payload)[p := b]))
           = Inl (Error (''Decryption failed: ''
                          @ ''Unsupported state or unable to authenticate data''))"
proof -
  from assms(4) obtain encrypted authTag where
    run: "cipher_run (algorithm svc) (key svc) iv (utf8_encode (json_stringify rt vector))
           = Inr (encrypted, authTag)"
    and payload: "payload = b64_encode (iv @ authTag @ encrypted)"
    by (auto simp: encryptVector_def split: sum.splits)
  have combined: "b64_decode payload = iv @ authTag @ encrypted"
    unfolding payload by (rule b64_decode_encode)
  from tampered_payload_rejected [OF assms(1,2,3) run assms(5,6) [unfolded combined]]
  show ?thesis
    unfolding decryptVector_def combined b64_decode_encode Let_def
    by (simp only: sum.case message.simps)
qed

text \<open>
  The instance: the payload of \<open>[1, -2, 3]\<close> under the example key, with byte 30
  (in the ciphertext region) changed from 185 to 7.
\<close>

theorem decryptVector_detects_tampering_witness:
  "encryptVector example_runtime example_service example_iv [Finite 1, Finite (- 2), Finite 3]
     = Inr ''AQIDBAUGBwgJCgsMHRh7OHji2dbbIlV0/JDz9Mqgub6nua7K''
   \<and> b64_decode ''AQIDBAUGBwgJCgsMHRh7OHji2dbbIlV0/JDz9Mqgub6nua7K'' ! 30 = 185
   \<and> b64_encode ((b64_decode ''AQIDBAUGBwgJCgsMHRh7OHji2dbbIlV0/JDz9Mqgub6nua7K'')[30 := 7])
       = ''AQIDBAUGBwgJCgsMHRh7OHji2dbbIlV0/JDz9MqgB76nua7K''
   \<and> decryptVector example_runtime example_service
         ''AQIDBAUGBwgJCgsMHRh7OHji2dbbIlV0/JDz9MqgB76nua7K''
       = Inl (Error ''Decryption failed: Unsupported state or unable to authenticate data'')"
proof -
  let ?P = "''AQIDBAUGBwgJCgsMHRh7OHji2dbbIlV0/JDz9Mqgub6nua7K''"
  have iv: "length example_iv = 12"
    by (simp add: example_iv_def)
  have enc: "encryptVector example_runtime example_service example_iv
      [Finite 1, Finite (- 2), Finite 3] = Inr ?P"
    by code_simp
  have p: "30 < length (b64_decode ?P)"
    by code_simp
  have old: "b64_decode ?P ! 30 = 185"
    by code_simp
  then have b: "7 \<noteq> b64_decode ?P ! 30"
    by simp
  have new: "b64_encode ((b64_decode ?P)[30 := 7])
      = ''AQIDBAUGBwgJCgsMHRh7OHji2dbbIlV0/JDz9MqgB76nua7K''"
    by code_simp
  have injE: "inj (block_encrypt (algorithm example_service) (key example_service))"
    by (simp add: example_service_def example_block_encrypt_inj)
  have injM: "inj (\<lambda>y. gf_mul (algorithm example_service) y
      (block_encrypt (algorithm example_service) (key example_service) 0))"
    by (simp add: example_service_def example_gf_mul_inj)
  from decryptVector_detects_tampering [OF injE injM iv enc p b]
  have "decryptVector example_runtime example_service
         ''AQIDBAUGBwgJCgsMHRh7OHji2dbbIlV0/JDz9MqgB76nua7K''
       = Inl (Error ''Decryption failed: Unsupported state or unable to authenticate data'')"
    by (simp add: new)
  with enc old new show ?thesis by blast
qed

subsection \<open>Round trip\<close>

lemma encryptVector_succeeds:
  assumes "length (key svc) = key_length (algorithm svc)" and "iv \<noteq> []"
  shows "\<exists>payload. encryptVector rt svc iv vector = Inr payload"
  using assms
  by (simp add: encryptVector_def cipher_run_def create_cipher_check_def Let_def)




subsection \<open>The errors of \<open>decryptVector\<close>\<close>

text \<open>
  C4 (amended). Whatever makes \<open>decryptVector\<close> fail, the error it throws is a plain
  \<open>Error\<close> whose message is \<open>Decryption failed: \<close> followed by the message of the
  underlying failure: the causes differ in that text only, not in the kind of error.
\<close>

theorem decryptVector_error_is_plain_Error:
  assumes "decryptVector rt svc encryptedData = Inl e"
  shows "error_name e = ''Error'' \<and> (\<exists>m. e = Error (''Decryption failed: '' @ m))"
  using assms
  by (auto simp: decryptVector_def Let_def split: sum.splits)

theorem decryptVector_error_is_plain_Error_witness:
  "decryptVector example_runtime example_service
     ''AQIDBAUGBwgJCgsMHRh7OHji2dbbIlV0/JDz9MqgB76nua7K''
     = Inl (Error ''Decryption failed: Unsupported state or unable to authenticate data'')
   \<and> error_name (Error ''Decryption failed: Unsupported state or unable to authenticate data'')
       = ''Error''"
proof -
  have fails: "decryptVector example_runtime example_service
     ''AQIDBAUGBwgJCgsMHRh7OHji2dbbIlV0/JDz9MqgB76nua7K''
     = Inl (Error ''Decryption failed: Unsupported state or unable to authenticate data'')"
    by code_simp
  from decryptVector_error_is_plain_Error [OF fails] fails show ?thesis by blast
qed

text \<open>
  C4 as stated fails: a changed byte (tag verification), an authentic payload whose
  plaintext is no JSON text (here the output of \<open>encrypt\<close> for \<open>hello\<close>) and a
  string that is no base64 at all give errors of one and the same class.
\<close>

theorem decryptVector_error_kind_counterexample:
  "decryptVector example_runtime example_service
     ''AQIDBAUGBwgJCgsMHRh7OHji2dbbIlV0/JDz9MqgB76nua7K''
     = Inl (Error ''Decryption failed: Unsupported state or unable to authenticate data'')
   \<and> encrypt example_service example_iv ''hello''
       = Inr ''AQIDBAUGBwgJCgsMHB0N3sPK2dbbIlV0/JDupfn0+f/6''
   \<and> decryptVector example_runtime example_service
         ''AQIDBAUGBwgJCgsMHB0N3sPK2dbbIlV0/JDupfn0+f/6''
       = Inl (Error ''Decryption failed: Unexpected token h in JSON at position 0'')
   \<and> decryptVector example_runtime example_service ''!!!''
       = Inl (Error ''Decryption failed: Invalid initialization vector'')
   \<and> error_name (Error ''Decryption failed: Unsupported state or unable to authenticate data'')
       = error_name (Error ''Decryption failed: Unexpected token h in JSON at position 0'')
   \<and> error_name (Error ''Decryption failed: Unsupported state or unable to authenticate data'')
       = error_name (Error ''Decryption failed: Invalid initialization vector'')"
  by code_simp

subsection \<open>Construction of the cipher component\<close>

lemma length_hex_decode:
  "list_all (\<lambda>c. unhex c \<noteq> None) s \<Longrightarrow> length (hex_decode s) = length s div 2"
  by (induction s rule: hex_decode.induct) (auto split: option.splits)

lemma new_EncryptionService_valid_key:
  assumes "valid_key_hex keyHex"
  shows "\<exists>svc. new_EncryptionService alg (Some keyHex) = Inr svc \<and> length (key svc) = 32"
proof -
  from assms have "length keyHex = 64" and "length (hex_decode keyHex) = length keyHex div 2"
    by (simp_all add: valid_key_hex_def length_hex_decode)
  then show ?thesis
    by (auto simp: new_EncryptionService_def)
qed

lemma new_EncryptionService_throws_iff:
  "(\<exists>e. new_EncryptionService alg keyHex_opt = Inl e)
     \<longleftrightarrow> (keyHex_opt = None \<or> length (the keyHex_opt) \<noteq> 64)"
  by (cases keyHex_opt) (auto simp: new_EncryptionService_def)

text \<open>
  C8. The constructor throws exactly when the key is missing or its length is not 64
  characters (lemma \<open>new_EncryptionService_throws_iff\<close>), and a key of 64 hexadecimal
  digits gives a 32-byte key (lemma \<open>new_EncryptionService_valid_key\<close>). It does not
  check that the characters are hexadecimal digits: for 64 characters \<open>z\<close> it
  succeeds with an empty key, with which every \<open>encryptVector\<close> then fails.
\<close>

theorem new_EncryptionService_accepts_non_hex_key:
  "length non_hex_key = 64
   \<and> \<not> valid_key_hex non_hex_key
   \<and> (case new_EncryptionService example_algorithm (Some non_hex_key) of
         Inl e \<Rightarrow> False
       | Inr svc \<Rightarrow>
           key svc = []
           \<and> encryptVector example_runtime svc example_iv [Finite 1]
               = Inl (Error ''Encryption failed: Invalid key length''))"
  by code_simp

subsection \<open>Threshold filtering in \<open>retrieve\<close>\<close>

text \<open>
  C5. When the embedding call succeeds and the store answers with \<open>results\<close>,
  \<open>retrieve\<close> returns exactly the results whose score is \<open>>=\<close> the configured
  threshold (a score equal to the threshold is kept), promoted one by one and in the order
  received: identifiers and scores are those of the filtered sequence, nothing is sorted.
  No ordering of the input is needed for this.
\<close>

theorem retrieve_threshold_filter:
  assumes "generateEmbedding emb q = Inr er"
    and "fst (query db (er_embedding er) (effective_topK cfg topK) None) = Inr results"
  shows "\<exists>out. fst (retrieve cfg emb db q topK) = Inr out
           \<and> out = map to_retrieval
                     (filter (\<lambda>r. js_ge (qr_score r) (similarityThreshold cfg)) results)
           \<and> map rr_id out
               = map qr_id (filter (\<lambda>r. js_ge (qr_score r) (similarityThreshold cfg)) results)
           \<and> map rr_score out
               = filter (\<lambda>s. js_ge s (similarityThreshold cfg)) (map qr_score results)
           \<and> (\<forall>r \<in> set out. js_ge (rr_score r) (similarityThreshold cfg))"
proof -
  let ?keep = "filter (\<lambda>r. js_ge (qr_score r) (similarityThreshold cfg)) results"
  obtain tr where q: "query db (er_embedding er) (effective_topK cfg topK) None = (Inr results, tr)"
    using assms(2) by (cases "query db (er_embedding er) (effective_topK cfg topK) None") simp
  have r: "fst (retrieve cfg emb db q topK) = Inr (map to_retrieval ?keep)"
    by (simp add: retrieve_def assms(1) q)
  have ids: "map rr_id (map to_retrieval ?keep) = map qr_id ?keep"
    by (simp add: to_retrieval_def)
  have scores: "map rr_score (map to_retrieval ?keep)
      = filter (\<lambda>s. js_ge s (similarityThreshold cfg)) (map qr_score results)"
    by (simp add: to_retrieval_def filter_map comp_def)
  have bound: "\<forall>r \<in> set (map to_retrieval ?keep). js_ge (rr_score r) (similarityThreshold cfg)"
    by (auto simp: to_retrieval_def)
  from r ids scores bound show ?thesis by blast
qed

text \<open>
  The scenario of the specification: scores \<open>[0.9, 0.75, 0.5]\<close> and threshold
  \<open>0.7\<close> give two results, in that order.
\<close>

theorem retrieve_threshold_filter_witness:
  "\<exists>out. fst (retrieve scenario_config scenario_embeddings scenario_store ''fever?'' None) = Inr out
     \<and> map rr_id out = [''a'', ''b'']
     \<and> map rr_score out = [Finite 0.9, Finite 0.75]
     \<and> length out = 2"
  using retrieve_threshold_filter [where emb = scenario_embeddings and q = "''fever?''"
      and er = "\<lparr>er_embedding = [Finite 1, Finite 2], er_model = ''nomic-embed-text'', er_usage = Finite 0\<rparr>"
      and db = scenario_store and cfg = scenario_config and topK = None
      and results = "[\<lparr>qr_id = ''a'', qr_score = Finite 0.9, qr_metadata = [(''chunkText'', String ''A'')]\<rparr>,
         \<lparr>qr_id = ''b'', qr_score = Finite 0.75, qr_metadata = [(''chunkText'', String ''B'')]\<rparr>,
         \<lparr>qr_id = ''c'', qr_score = Finite 0.5, qr_metadata = [(''chunkText'', String ''C'')]\<rparr>]"]
  by (simp add: scenario_embeddings_def generateEmbedding_def generateOllamaEmbedding_def scenario_store_def scenario_config_def query_def client_post_def)

subsection \<open>A falsy \<open>topK\<close> is replaced by the default\<close>

text \<open>
  C10. When \<open>retrieve\<close> is called with an explicit \<open>topK\<close> that is falsy
  (\<open>0\<close> or \<open>NaN\<close>), the body posted to the store carries the configured
  \<open>maxContextChunks\<close> as \<open>topK\<close>, and the call behaves exactly as the call
  without \<open>topK\<close>: zero results cannot be requested.
\<close>

theorem retrieve_falsy_topK_uses_default:
  assumes "generateEmbedding emb q = Inr er" and "client db = Some post" and "\<not> truthy k"
  shows "snd (retrieve cfg emb db q (Some k))
           = [EmbedCall q,
              StorePost (''/indexes/'' @ indexName db @ ''/query'')
                (QueryBody (er_embedding er) (maxContextChunks cfg) None True)]
         \<and> retrieve cfg emb db q (Some k) = retrieve cfg emb db q None"
  using assms
  by (auto simp: retrieve_def query_def client_post_def effective_topK_def
           split: sum.splits response.splits prod.splits)

theorem retrieve_falsy_topK_uses_default_witness:
  "snd (retrieve scenario_config scenario_embeddings scenario_store ''fever?'' (Some (Finite 0)))
     = [EmbedCall ''fever?'',
        StorePost ''/indexes/medical-embeddings/query''
          (QueryBody [Finite 1, Finite 2] (Finite 5) None True)]"
proof -
  have g: "generateEmbedding scenario_embeddings ''fever?''
      = Inr \<lparr>er_embedding = [Finite 1, Finite 2], er_model = ''nomic-embed-text'', er_usage = Finite 0\<rparr>"
    by (simp add: scenario_embeddings_def generateEmbedding_def generateOllamaEmbedding_def)
  have c: "client scenario_store = Some (the (client scenario_store))"
    by (simp add: scenario_store_def)
  have t: "\<not> truthy (Finite 0)"
    by simp
  have "snd (retrieve scenario_config scenario_embeddings scenario_store ''fever?'' (Some (Finite 0)))
     = [EmbedCall ''fever?'',
        StorePost (''/indexes/'' @ indexName scenario_store @ ''/query'')
          (QueryBody (er_embedding \<lparr>er_embedding = [Finite 1, Finite 2],
                        er_model = ''nomic-embed-text'', er_usage = Finite 0\<rparr>)
             (maxContextChunks scenario_config) None True)]"
    using g c t retrieve_falsy_topK_uses_default [where cfg = scenario_config
        and emb = scenario_embeddings and q = "''fever?''" and db = scenario_store and k = "Finite 0"
        and post = "the (client scenario_store)"
        and er = "\<lparr>er_embedding = [Finite 1, Finite 2], er_model = ''nomic-embed-text'', er_usage = Finite 0\<rparr>"]
    by blast
  then show ?thesis
    by (simp add: scenario_store_def scenario_config_def)
qed

subsection \<open>Ingestion\<close>

lemma encrypt_loop_all_encrypted:
  assumes key: "length (key (encryptionService rag)) = key_length (algorithm (encryptionService rag))"
    and ivs: "\<forall>i. randomBytes rag i \<noteq> []"
  shows "i + length chunks \<le> length results \<Longrightarrow>
         \<exists>new. encrypt_loop rag document results chunks i records tr
                 = (Inr (records @ new),
                    tr @ map EncryptCall (map er_embedding (take (length chunks) (drop i results))))
           \<and> map vr_vector new = map er_embedding (take (length chunks) (drop i results))
           \<and> map vr_id new
               = map (\<lambda>j. doc_id document @ ''_chunk_'' @ show_nat j) [i ..< i + length chunks]"
proof (induction chunks arbitrary: i records tr)
  case Nil
  then show ?case by simp
next
  case (Cons chunk chunks)
  from Cons.prems have i: "i < length results" and rest: "Suc i + length chunks \<le> length results"
    by simp_all
  define embedding where "embedding = er_embedding (results ! i)"
  from ivs have "randomBytes rag i \<noteq> []" by blast
  from encryptVector_succeeds [OF key this] obtain encryptedVector where
    enc: "encryptVector (runtime rag) (encryptionService rag) (randomBytes rag i) embedding
            = Inr encryptedVector"
    by blast
  define r where "r = \<lparr>vr_id = doc_id document @ ''_chunk_'' @ show_nat i,
                         vr_vector = embedding,
                         vr_metadata = record_metadata document i (tc_text chunk) encryptedVector\<rparr>"
  from Cons.IH [OF rest, of "records @ [r]" "tr @ [EncryptCall embedding]"]
  obtain new where
    run: "encrypt_loop rag document results chunks (Suc i) (records @ [r])
            (tr @ [EncryptCall embedding])
          = (Inr ((records @ [r]) @ new),
             (tr @ [EncryptCall embedding])
             @ map EncryptCall (map er_embedding (take (length chunks) (drop (Suc i) results))))"
    and vecs: "map vr_vector new
          = map er_embedding (take (length chunks) (drop (Suc i) results))"
    and ids: "map vr_id new
          = map (\<lambda>j. doc_id document @ ''_chunk_'' @ show_nat j) [Suc i ..< Suc i + length chunks]"
    by blast
  have step: "encrypt_loop rag document results (chunk # chunks) i records tr
      = encrypt_loop rag document results chunks (Suc i) (records @ [r])
          (tr @ [EncryptCall embedding])"
    using i enc by (simp add: embedding_def [symmetric] Let_def r_def)
  have tk: "take (length (chunk # chunks)) (drop i results)
      = results ! i # take (length chunks) (drop (Suc i) results)"
    using i by (simp add: Cons_nth_drop_Suc [symmetric])
  have upt: "[i ..< i + length (chunk # chunks)] = i # [Suc i ..< Suc i + length chunks]"
    by (subst upt_rec) simp
  have a: "encrypt_loop rag document results (chunk # chunks) i records tr
      = (Inr (records @ (r # new)),
         tr @ map EncryptCall (map er_embedding
                (take (length (chunk # chunks)) (drop i results))))"
    unfolding step run tk by (simp add: embedding_def)
  have b: "map vr_vector (r # new)
      = map er_embedding (take (length (chunk # chunks)) (drop i results))"
    unfolding tk by (simp add: vecs r_def embedding_def)
  have c: "map vr_id (r # new)
      = map (\<lambda>j. doc_id document @ ''_chunk_'' @ show_nat j) [i ..< i + length (chunk # chunks)]"
    unfolding upt by (simp add: ids r_def)
  from a b c show ?case by blast
qed

lemma upsert_acknowledged:
  assumes "client db = Some post" and "post (''/indexes/'' @ indexName db @ ''/upsert'')
      (UpsertBody (map to_wire records)) = Inr response"
  shows "upsert db records
    = (Inr (), [StorePost (''/indexes/'' @ indexName db @ ''/upsert'')
                  (UpsertBody (map to_wire records))])"
  using assms by (simp add: upsert_def client_post_def)

lemma ingestDocument_no_units:
  assumes "splitIntoSentences (doc_content document) = []"
  shows "ingestDocument rag document
    = Some (case upsert (cyborgDbService rag) [] of
              (Inl e, tr) \<Rightarrow> (Inl (ingest_failed e), tr)
            | (Inr u, tr) \<Rightarrow> (Inr [], tr))"
proof -
  have chunks: "chunkText (documentChunker rag) (doc_content document) (doc_metadata document) = []"
    by (simp add: chunkText_def assms trim_def)
  have emb: "generateEmbeddings (embeddingsService rag) [] = Some (Inr [], [])"
    unfolding generateEmbeddings_def by (subst embeddings_loop.simps) simp
  show ?thesis
    unfolding ingestDocument_def Let_def chunks
    by (simp add: emb split: prod.splits sum.splits)
qed

end
